theory Spec2Isabelle
  imports Main "HOL-Library.Char_ord" "HOL-Library.List_Lexorder" "HOL-Library.AList"
begin

section \<open>Python string operations used by ceph\_rest\_api.py\<close>

text \<open>
  Python 2 byte strings are modelled as \<^typ>\<open>string\<close>. Only the operations the
  module calls are defined, each with the behaviour of the Python builtin.
\<close>

text \<open>\<^verbatim>\<open>s.startswith(p)\<close>\<close>

fun startswith :: "string \<Rightarrow> string \<Rightarrow> bool" where
  "startswith s [] = True"
| "startswith [] (p # ps) = False"
| "startswith (c # cs) (p # ps) = (c = p \<and> startswith cs ps)"

text \<open>\<^verbatim>\<open>k in s\<close> for strings: \<open>k\<close> occurs in \<open>s\<close> as a substring.\<close>

fun py_in :: "string \<Rightarrow> string \<Rightarrow> bool" where
  "py_in k [] = (k = [])"
| "py_in k (c # cs) = (startswith (c # cs) k \<or> py_in k cs)"

text \<open>
  \<^verbatim>\<open>s.replace(old, new)\<close> for a non-empty \<open>old\<close>: the occurrences are found from
  the left and do not overlap. The counter is the number of characters of the
  occurrence just replaced that are still to be skipped.
\<close>

fun replace_from :: "string \<Rightarrow> string \<Rightarrow> nat \<Rightarrow> string \<Rightarrow> string" where
  "replace_from old new k [] = []"
| "replace_from old new (Suc k) (c # cs) = replace_from old new k cs"
| "replace_from old new 0 (c # cs) =
     (if startswith (c # cs) old then new @ replace_from old new (length old - 1) cs
      else c # replace_from old new 0 cs)"

definition py_replace :: "string \<Rightarrow> string \<Rightarrow> string \<Rightarrow> string" where
  "py_replace s old new = replace_from old new 0 s"

text \<open>\<^verbatim>\<open>s.split(sep)\<close> for a one-character separator: empty fields are kept.\<close>

fun split_on :: "char \<Rightarrow> string \<Rightarrow> string list" where
  "split_on sep [] = [[]]"
| "split_on sep (c # cs) =
     (case split_on sep cs of
        [] \<Rightarrow> [[c]]
      | w # ws \<Rightarrow> if c = sep then [] # w # ws else (c # w) # ws)"

text \<open>\<^verbatim>\<open>sep.join(xs)\<close>\<close>

fun join :: "string \<Rightarrow> string list \<Rightarrow> string" where
  "join sep [] = []"
| "join sep [x] = x"
| "join sep (x # y # ys) = x @ sep @ join sep (y # ys)"

text \<open>\<^verbatim>\<open>s.strip()\<close>: whitespace is removed at both ends.\<close>

definition is_space :: "char \<Rightarrow> bool" where
  "is_space c = (c \<in> set [CHR '' '', CHR 0x09, CHR 0x0A, CHR 0x0B, CHR 0x0C, CHR 0x0D])"

definition strip :: "string \<Rightarrow> string" where
  "strip s = rev (dropWhile is_space (rev (dropWhile is_space s)))"

section \<open>Signature model\<close>

text \<open>
  An argument descriptor (\<^verbatim>\<open>argdesc\<close> of ceph\_argparse) as this module reads it:
  \<^verbatim>\<open>desc.t\<close> is the class of the argument type, \<^verbatim>\<open>desc.name\<close>, \<^verbatim>\<open>desc.req\<close>,
  and of \<^verbatim>\<open>desc.instance\<close> the attribute \<^verbatim>\<open>prefix\<close> (of a CephPrefix) and
  \<^verbatim>\<open>strings\<close> (of a CephChoices). Every other argument class is \<open>CephOther\<close>
  with its class name.
\<close>

datatype argtype = CephPrefix | CephChoices | CephOsdName | CephOther string

record argdesc =
  t :: argtype
  name :: string
  req :: bool
  inst_prefix :: string
  inst_strings :: "string list"

datatype flavor = Mon | Pgid | Tellosd

text \<open>
  \<^verbatim>\<open>parse_funcsig(['tell', {'name':'target', 'type':'CephOsdName'}])\<close>: the two
  descriptors put in front of an OSD command's signature.
  Modelled from the spec: \<^verbatim>\<open>parse_funcsig\<close> is defined in ceph\_argparse; a bare word
  gives a required prefix literal, the dictionary a required parameter named
  \<open>target\<close> of the node-name type.
\<close>

definition tell_target_sig :: "argdesc list" where
  "tell_target_sig =
     [\<lparr>t = CephPrefix, name = ''prefix'', req = True, inst_prefix = ''tell'', inst_strings = []\<rparr>,
      \<lparr>t = CephOsdName, name = ''target'', req = True, inst_prefix = [], inst_strings = []\<rparr>]"

section \<open>Route compiler: generate\_url\_and\_params\<close>

text \<open>
  One iteration of the loop \<^verbatim>\<open>for desc in sig\<close>, on the pair \<open>(url, params)\<close>.
  \<open>istr\<close> is \<^verbatim>\<open>str(desc.instance)\<close>, which ceph\_argparse defines.
\<close>

definition url_step ::
  "(argdesc \<Rightarrow> string) \<Rightarrow> flavor \<Rightarrow> string \<times> argdesc list \<Rightarrow> argdesc \<Rightarrow> string \<times> argdesc list"
where
  "url_step istr fl st desc =
     (case st of (url, params) \<Rightarrow>
        if t desc = CephPrefix then (url @ ''/'' @ inst_prefix desc, params)
        else if t desc = CephChoices \<and> length (inst_strings desc) = 1 \<and> req desc \<and>
                \<not> startswith (istr desc) ''--'' \<and> params = []
          then (url @ ''/'' @ istr desc, params)
        else if fl = Tellosd \<and> (t desc, name desc) = (CephOsdName, ''target'')
          then (url @ ''/<target>'', params)
        else (url, params @ [desc]))"

definition url_loop ::
  "(argdesc \<Rightarrow> string) \<Rightarrow> flavor \<Rightarrow> string \<times> argdesc list \<Rightarrow> argdesc list \<Rightarrow> string \<times> argdesc list"
where
  "url_loop istr fl st sig = foldl (url_step istr fl) st sig"

definition compiled_sig :: "flavor \<Rightarrow> argdesc list \<Rightarrow> argdesc list" where
  "compiled_sig fl sig = (if fl = Tellosd then tell_target_sig @ sig else sig)"

definition generate_url_and_params ::
  "(argdesc \<Rightarrow> string) \<Rightarrow> string \<Rightarrow> argdesc list \<Rightarrow> flavor \<Rightarrow> string \<times> argdesc list"
where
  "generate_url_and_params istr baseurl sig fl =
     (case url_loop istr fl ([], []) (compiled_sig fl sig) of
        (url, params) \<Rightarrow> (baseurl @ url, params))"

section \<open>Errors, integers and strings\<close>

text \<open>The Python exceptions this module can raise by itself.\<close>

datatype py_error = KeyError | IndexError | ValueError | UnboundLocalError

definition digit_char :: "nat \<Rightarrow> char" where
  "digit_char n = char_of (48 + n)"

definition is_digit :: "char \<Rightarrow> bool" where
  "is_digit c = (48 \<le> (of_char c :: nat) \<and> (of_char c :: nat) \<le> 57)"

text \<open>\<^verbatim>\<open>str(n)\<close> of an integer: decimal, with a minus sign when negative.\<close>

function str_nat :: "nat \<Rightarrow> string" where
  "str_nat n = (if n < 10 then [digit_char n] else str_nat (n div 10) @ [digit_char (n mod 10)])"
  by pat_completeness auto
termination
  by (relation "measure id") auto

declare str_nat.simps [simp del]

definition str_int :: "int \<Rightarrow> string" where
  "str_int i = (if i < 0 then ''-'' @ str_nat (nat (- i)) else str_nat (nat i))"

text \<open>
  \<^verbatim>\<open>int(s)\<close> of a string: surrounding whitespace is dropped, then an optional
  sign and at least one decimal digit must remain; anything else raises
  ValueError.
\<close>

definition digits_value :: "string \<Rightarrow> nat" where
  "digits_value ds = foldl (\<lambda>acc c. 10 * acc + (of_char c - 48)) 0 ds"

definition py_int :: "string \<Rightarrow> py_error + int" where
  "py_int s =
     (let s' = strip s;
          neg = (s' \<noteq> [] \<and> hd s' = CHR ''-'');
          ds = (if s' \<noteq> [] \<and> (hd s' = CHR ''-'' \<or> hd s' = CHR ''+'') then tl s' else s')
      in if ds = [] \<or> \<not> list_all is_digit ds then Inl ValueError
         else Inr (if neg then - int (digits_value ds) else int (digits_value ds)))"

section \<open>Catalog: command descriptions and their merge\<close>

text \<open>
  An entry of the dictionary parse\_json\_funcsigs returns, and the same entry
  once api\_setup has stored its flavor (\<^verbatim>\<open>'mon'\<close>, \<^verbatim>\<open>'pgid'\<close> or \<^verbatim>\<open>'tellosd'\<close>).
  A dictionary that the module iterates over is an association list with
  distinct keys, in the order of iteration.
\<close>

record cmddesc =
  c_sig :: "argdesc list"
  c_help :: string
  c_module :: string
  c_perm :: string

record cmddict = cmddesc +
  c_flavor :: flavor

definition with_flavor :: "cmddesc \<Rightarrow> flavor \<Rightarrow> cmddict" where
  "with_flavor v fl =
     \<lparr>c_sig = c_sig v, c_help = c_help v, c_module = c_module v, c_perm = c_perm v,
      c_flavor = fl\<rparr>"

text \<open>
  Lines 177-186 of api\_setup: the loop over \<^verbatim>\<open>osd_sigdict.iteritems()\<close>, which
  stores each OSD command under \<^verbatim>\<open>'cmd' + str(osdkey)\<close>. \<open>concise\<close> is
  \<^verbatim>\<open>concise_sig\<close> of ceph\_argparse.
\<close>

fun shift_osd ::
  "(argdesc list \<Rightarrow> string) \<Rightarrow> int \<Rightarrow> (string \<times> cmddict) list \<Rightarrow> (string \<times> cmddesc) list
     \<Rightarrow> (string \<times> cmddict) list"
where
  "shift_osd concise osdkey sigdict [] = sigdict"
| "shift_osd concise osdkey sigdict ((k, v) # rest) =
     (let fl = (if startswith (concise (c_sig v)) ''pg'' then Pgid else Tellosd);
          globk = ''cmd'' @ str_int osdkey
      in shift_osd concise (osdkey + 1) (AList.update globk (with_flavor v fl) sigdict) rest)"

text \<open>
  Lines 166-186 of api\_setup. \<^verbatim>\<open>sorted(glob.sigdict.keys())[-1]\<close> is the greatest
  key in the order of Python strings (lexicographic, by character code) and
  raises IndexError when there is no key.
\<close>

definition merge_sigdicts ::
  "(argdesc list \<Rightarrow> string) \<Rightarrow> (string \<times> cmddesc) list \<Rightarrow> (string \<times> cmddesc) list
     \<Rightarrow> py_error + (string \<times> cmddict) list"
where
  "merge_sigdicts concise mon_sigdict osd_sigdict =
     (let sigdict = map (\<lambda>(k, v). (k, with_flavor v Mon)) mon_sigdict;
          ks = sort (map fst sigdict)
      in if ks = [] then Inl IndexError
         else case py_int (py_replace (last ks) ''cmd'' []) of
                Inl e \<Rightarrow> Inl e
              | Inr maxkey \<Rightarrow> Inr (shift_osd concise (maxkey + 1) sigdict osd_sigdict))"

section \<open>Route table: the loop of api\_setup over the catalog\<close>

definition METHOD_DICT :: "(string \<times> string list) list" where
  "METHOD_DICT = [(''r'', [''GET'']), (''w'', [''PUT'', ''DELETE''])]"

text \<open>
  Lines 202-204: \<^verbatim>\<open>for k in METHOD_DICT.iterkeys(): if k in perm: methods = METHOD_DICT[k]\<close>.
  \<open>items\<close> are the entries of METHOD\_DICT in the order the dictionary iterates
  them, and \<open>m0\<close> is the variable \<^verbatim>\<open>methods\<close> before the loop: \<open>None\<close> while it
  is unbound, else what the previous command left in it.
\<close>

definition perm_methods ::
  "(string \<times> string list) list \<Rightarrow> string \<Rightarrow> string list option \<Rightarrow> string list option"
where
  "perm_methods items p m0 = foldl (\<lambda>m (k, v). if py_in k p then Some v else m) m0 items"

record urldict =
  u_paramsig :: "argdesc list"
  u_help :: string
  u_module :: string
  u_perm :: string
  u_flavor :: flavor
  u_methods :: "string list"

text \<open>
  The state of the loop at lines 197-228: \<^verbatim>\<open>glob.urls\<close>, the calls of
  \<^verbatim>\<open>app.add_url_rule(rule, endpoint, handler, methods=...)\<close> made so far as pairs
  (rule, methods), and the local variable \<^verbatim>\<open>methods\<close>.
\<close>

record setup_state =
  urls :: "string \<rightharpoonup> urldict list"
  rules :: "(string \<times> string list) list"
  methods :: "string list option"

text \<open>
  One iteration. \<^verbatim>\<open>list(methodset)\<close> is given without duplicates, new methods
  first; Python leaves the order of a set open, and only membership is read.
\<close>

definition setup_step ::
  "(argdesc \<Rightarrow> string) \<Rightarrow> string \<Rightarrow> (string \<times> string list) list \<Rightarrow> setup_state \<Rightarrow> cmddict
     \<Rightarrow> py_error + setup_state"
where
  "setup_step istr baseurl items st cmd =
     (case generate_url_and_params istr baseurl (c_sig cmd) (c_flavor cmd) of
        (url, params) \<Rightarrow>
          (case perm_methods items (c_perm cmd) (methods st) of
             None \<Rightarrow> Inl UnboundLocalError
           | Some ms \<Rightarrow>
               let ud = \<lparr>u_paramsig = params, u_help = c_help cmd, u_module = c_module cmd,
                         u_perm = c_perm cmd, u_flavor = c_flavor cmd, u_methods = ms\<rparr>;
                   ms' = (case urls st url of
                            None \<Rightarrow> ms
                          | Some old \<Rightarrow> remdups (ms @ concat (map u_methods old)));
                   urls' = (case urls st url of
                              None \<Rightarrow> (urls st)(url \<mapsto> [ud])
                            | Some old \<Rightarrow> (urls st)(url \<mapsto> old @ [ud]))
               in Inr \<lparr>urls = urls',
                       rules = rules st @ [(url, ms'), (url @ ''.<fmt>'', ms')],
                       methods = Some ms'\<rparr>))"

fun setup_loop ::
  "(argdesc \<Rightarrow> string) \<Rightarrow> string \<Rightarrow> (string \<times> string list) list \<Rightarrow> setup_state \<Rightarrow> cmddict list
     \<Rightarrow> py_error + setup_state"
where
  "setup_loop istr baseurl items st [] = Inr st"
| "setup_loop istr baseurl items st (cmd # cmds) =
     (case setup_step istr baseurl items st cmd of
        Inl e \<Rightarrow> Inl e
      | Inr st' \<Rightarrow> setup_loop istr baseurl items st' cmds)"

text \<open>Lines 196-233: the loop from the empty table, then the catch-all rule.\<close>

definition build_urls ::
  "(argdesc \<Rightarrow> string) \<Rightarrow> string \<Rightarrow> (string \<times> string list) list \<Rightarrow> (string \<times> cmddict) list
     \<Rightarrow> py_error + setup_state"
where
  "build_urls istr baseurl items sigdict =
     (case setup_loop istr baseurl items \<lparr>urls = Map.empty, rules = [], methods = None\<rparr>
             (map snd sigdict) of
        Inl e \<Rightarrow> Inl e
      | Inr st \<Rightarrow>
          Inr (st\<lparr>rules := rules st @ [(''/<path:catchall_path>'', [''GET'', ''PUT''])]\<rparr>))"

text \<open>
  Flask keeps every rule that add\_url\_rule is given, so a request for a URL is
  served when one of the rules added for it lists the request's method.
  \<open>rule_methods\<close> are the method lists of the calls made for a rule, and
  \<open>accepted_methods\<close> the methods they list together.
\<close>

definition rule_methods :: "(string \<times> string list) list \<Rightarrow> string \<Rightarrow> string list list" where
  "rule_methods rs url = map snd (filter (\<lambda>r. fst r = url) rs)"

definition accepted_methods :: "(string \<times> string list) list \<Rightarrow> string \<Rightarrow> string set" where
  "accepted_methods rs url = \<Union> (set ` set (rule_methods rs url))"

text \<open>The URL a command of the catalog compiles to.\<close>

definition route_of :: "(argdesc \<Rightarrow> string) \<Rightarrow> string \<Rightarrow> cmddict \<Rightarrow> string" where
  "route_of istr baseurl cmd = fst (generate_url_and_params istr baseurl (c_sig cmd) (c_flavor cmd))"

section \<open>Collaborators of the dispatcher\<close>

text \<open>A JSON value, as \<^verbatim>\<open>json.loads\<close> returns it and \<^verbatim>\<open>json.dumps\<close> takes it.\<close>

datatype json =
  JNull | JBool bool | JNum int | JStr string | JArr "json list" | JObj "(string \<times> json) list"

text \<open>
  A value of the dictionary \<^verbatim>\<open>args\<close> built at lines 457-462: the only value of a
  query parameter given once, or the list of its values.
\<close>

datatype argval = One string | Many "string list"

text \<open>
  The variable \<^verbatim>\<open>target\<close> of the handler: the string taken from the URL, or a
  pair (node type, node id).
\<close>

datatype target = Raw string | Node string string

text \<open>
  What the module calls and does not define: ceph\_argparse
  (\<^verbatim>\<open>str(desc)\<close>, \<^verbatim>\<open>str(desc.instance)\<close>, \<^verbatim>\<open>concise_sig\<close>, \<^verbatim>\<open>descsort\<close>,
  \<^verbatim>\<open>CephOsdName().valid\<close>, \<^verbatim>\<open>validate\<close>, \<^verbatim>\<open>json_command\<close>), textwrap, flask.escape,
  xml.sax.saxutils.escape and json. A call that can raise returns the
  exception's message on the left (\<open>None\<close> for json.loads); json\_command
  returns (ret, outbuf, outs).
\<close>

record ext =
  instance_str :: "argdesc \<Rightarrow> string"
  desc_str :: "argdesc \<Rightarrow> string"
  concise_sig :: "argdesc list \<Rightarrow> string"
  descsort :: "cmddict \<Rightarrow> cmddict \<Rightarrow> int"
  wrap :: "string \<Rightarrow> nat \<Rightarrow> string list"
  escape :: "string \<Rightarrow> string"
  xml_escape :: "string \<Rightarrow> string"
  osdname_valid :: "string \<Rightarrow> string + string \<times> string"
  validate :: "(string \<times> argval) list \<Rightarrow> argdesc list \<Rightarrow> string + (string \<rightharpoonup> argval)"
  json_loads :: "string \<Rightarrow> json option"
  json_dumps :: "json \<Rightarrow> string"
  json_command :: "target \<Rightarrow> string \<Rightarrow> string \<Rightarrow> (string \<rightharpoonup> argval) \<Rightarrow> int \<times> string \<times> string"

text \<open>The globals \<^verbatim>\<open>glob.baseurl\<close>, \<^verbatim>\<open>glob.urls\<close> and \<^verbatim>\<open>glob.sigdict\<close>.\<close>

record gvars =
  g_baseurl :: string
  g_urls :: "string \<rightharpoonup> urldict list"
  g_sigdict :: "(string \<times> cmddict) list"

text \<open>
  What the handler reads of \<^verbatim>\<open>flask.request\<close>: endpoint, method, the query
  parameters with the list of values of each (\<^verbatim>\<open>args\<close>), the values of the
  Accept header and the body.
\<close>

record request =
  rq_endpoint :: string
  rq_method :: string
  rq_args :: "(string \<times> string list) list"
  rq_accept :: "string list"
  rq_data :: string

text \<open>
  A response: status code, body and the Content-Type header, \<open>None\<close> while
  the handler has not set it.
\<close>

record response =
  status :: int
  body :: string
  content_type :: "string option"

definition flask_response :: "string \<Rightarrow> int \<Rightarrow> response" where
  "flask_response b code = \<lparr>status = code, body = b, content_type = None\<rparr>"

text \<open>Truth value of an optional string: neither None nor empty.\<close>

definition truthy :: "string option \<Rightarrow> bool" where
  "truthy s = (case s of None \<Rightarrow> False | Some v \<Rightarrow> v \<noteq> [])"

section \<open>Help for unknown endpoints: show\_human\_help\<close>

definition concise_sig_for_uri :: "ext \<Rightarrow> argdesc list \<Rightarrow> flavor \<Rightarrow> string" where
  "concise_sig_for_uri X sig fl =
     (let ret = (if fl = Tellosd then ''tell/<osdid>/'' else []);
          pre = map inst_prefix (filter (\<lambda>d. t d = CephPrefix) sig);
          as = map (\<lambda>d. name d @ ''='' @ desc_str X d) (filter (\<lambda>d. t d \<noteq> CephPrefix) sig);
          ret = ret @ join ''/'' pre
      in if as \<noteq> [] then ret @ ''?'' @ join ''&'' as else ret)"

text \<open>\<^verbatim>\<open>sorted(xs, cmp=f)\<close>: a stable sort by the comparison function.\<close>

fun insert_cmp :: "('a \<Rightarrow> 'a \<Rightarrow> int) \<Rightarrow> 'a \<Rightarrow> 'a list \<Rightarrow> 'a list" where
  "insert_cmp f x [] = [x]"
| "insert_cmp f x (y # ys) = (if f x y \<le> 0 then x # y # ys else y # insert_cmp f x ys)"

definition sorted_cmp :: "('a \<Rightarrow> 'a \<Rightarrow> int) \<Rightarrow> 'a list \<Rightarrow> 'a list" where
  "sorted_cmp f xs = foldr (insert_cmp f) xs []"

definition permmap :: "string \<rightharpoonup> string" where
  "permmap = map_of [(''r'', ''GET''), (''rw'', ''PUT'')]"

text \<open>Lines 307-311: the concise form that is compared with the prefix.\<close>

definition help_concise :: "ext \<Rightarrow> cmddict \<Rightarrow> string" where
  "help_concise X cmdsig =
     (let concise = concise_sig X (c_sig cmdsig);
          concise = (if c_flavor cmdsig = Pgid then ''pg/<pgid>/'' @ concise else concise);
          concise = (if c_flavor cmdsig = Tellosd then ''tell/<osdid>/'' @ concise else concise)
      in concise)"

text \<open>Lines 313-323: the pieces of a table row, given the method of the command.\<close>

definition help_row :: "ext \<Rightarrow> cmddict \<Rightarrow> string \<Rightarrow> string list" where
  "help_row X cmdsig m =
     [''<tr><td>''] @
     map (\<lambda>sigline. escape X sigline @ [CHR 0x0A])
         (wrap X (concise_sig_for_uri X (c_sig cmdsig) (c_flavor cmdsig)) 40) @
     [''</td><td>'', m, ''</td><td>'', escape X (c_help cmdsig), ''</td></tr>'' @ [CHR 0x0A]]"

text \<open>
  The loop at lines 306-324 on the pair (\<^verbatim>\<open>s\<close>, \<^verbatim>\<open>line\<close>); \<^verbatim>\<open>line\<close> starts as the
  empty string, here the empty list. \<^verbatim>\<open>permmap[cmdsig['perm']]\<close> raises KeyError
  for a permission that is not a key of permmap.
\<close>

fun help_loop ::
  "ext \<Rightarrow> string \<Rightarrow> string \<times> string list \<Rightarrow> cmddict list \<Rightarrow> py_error + string \<times> string list"
where
  "help_loop X pre st [] = Inr st"
| "help_loop X pre st (cmdsig # rest) =
     (if startswith (help_concise X cmdsig) pre then
        (case permmap (c_perm cmdsig) of
           None \<Rightarrow> Inl KeyError
         | Some m \<Rightarrow>
             help_loop X pre (fst st @ concat (help_row X cmdsig m), help_row X cmdsig m) rest)
      else help_loop X pre st rest)"

definition show_human_help :: "ext \<Rightarrow> (string \<times> cmddict) list \<Rightarrow> string \<Rightarrow> py_error + string" where
  "show_human_help X sigdict pre =
     (case help_loop X pre
             (''<html><body><table border=1><th>Possible commands:</th><th>Method</th><th>Description</th>'', [])
             (sorted_cmp (descsort X) (map snd sigdict)) of
        Inl e \<Rightarrow> Inl e
      | Inr (s, line) \<Rightarrow> Inr (if line \<noteq> [] then s @ ''</table></body></html>'' else []))"

section \<open>Response formatter: make\_response\<close>

definition xml_envelope :: "string \<Rightarrow> string \<Rightarrow> string" where
  "xml_envelope out st =
     [CHR 0x0A] @ ''<response>'' @ [CHR 0x0A] @ ''  <output>'' @ [CHR 0x0A] @ ''    '' @ out @
     [CHR 0x0A] @ ''  </output>'' @ [CHR 0x0A] @ ''  <status>'' @ [CHR 0x0A] @ ''    '' @ st @
     [CHR 0x0A] @ ''  </status>'' @ [CHR 0x0A] @ ''</response>''"

text \<open>
  The \<^verbatim>\<open>try\<close> of lines 354-360 fails when json.loads rejects its input; the
  handler then answers 500, whatever \<open>errorcode\<close> is.
\<close>

definition make_response :: "ext \<Rightarrow> string option \<Rightarrow> string \<Rightarrow> string \<Rightarrow> int \<Rightarrow> response" where
  "make_response X fmt output statusmsg errorcode =
     (case fmt of
        None \<Rightarrow> flask_response output errorcode
      | Some f \<Rightarrow>
          if f = [] then flask_response output errorcode
          else if py_in ''json'' f then
            (case json_loads X (if output \<noteq> [] then output else ''[]'') of
               None \<Rightarrow> flask_response (''Error decoding JSON from '' @ output) 500
             | Some native_output \<Rightarrow>
                 flask_response
                   (json_dumps X (JObj [(''output'', native_output), (''status'', JStr statusmsg)]))
                   errorcode)
          else if py_in ''xml'' f then
            flask_response (xml_envelope output (xml_escape X statusmsg)) errorcode
          else flask_response output errorcode)"

section \<open>Request dispatcher: handler\<close>

text \<open>Python's \<^verbatim>\<open>x or d\<close> for an optional string \<open>x\<close>.\<close>

definition or_else :: "string option \<Rightarrow> string \<Rightarrow> string" where
  "or_else x d = (case x of None \<Rightarrow> d | Some v \<Rightarrow> if v \<noteq> [] then v else d)"

text \<open>
  Lines 401-406: the format is the \<^verbatim>\<open>fmt\<close> of the URL rule when there is one,
  else it comes from the Accept header.
\<close>

definition resolve_fmt :: "string option \<Rightarrow> string list \<Rightarrow> string option" where
  "resolve_fmt fmt accept =
     (if \<not> truthy fmt then
        (if ''application/json'' \<in> set accept then Some ''json''
         else if ''application/xml'' \<in> set accept then Some ''xml''
         else fmt)
      else fmt)"

text \<open>
  The variables set at lines 408-426: \<^verbatim>\<open>target\<close> (\<open>None\<close> while it is false),
  \<^verbatim>\<open>prefix\<close>, \<^verbatim>\<open>pgid\<close>, \<^verbatim>\<open>valid\<close> and \<^verbatim>\<open>reason\<close>.
\<close>

record target_state =
  ts_target :: "target option"
  ts_prefix :: string
  ts_pgid :: "string option"
  ts_valid :: bool
  ts_reason :: "string option"

text \<open>
  \<^verbatim>\<open>flask.request.args['pgid']\<close> is the first value of the parameter and raises
  a KeyError when there is none.
\<close>

definition resolve_target ::
  "ext \<Rightarrow> request \<Rightarrow> string \<Rightarrow> string option \<Rightarrow> py_error + target_state"
where
  "resolve_target X rq rel_ep target =
     (if truthy target then
        (case osdname_valid X (or_else target []) of
           Inr (nametype, nameid) \<Rightarrow>
             Inr \<lparr>ts_target = Some (Node nametype nameid),
                  ts_prefix = strip (join '' '' (drop 2 (split_on CHR ''/'' rel_ep))),
                  ts_pgid = None, ts_valid = True, ts_reason = None\<rparr>
         | Inl e \<Rightarrow>
             Inr \<lparr>ts_target = Some (Raw (or_else target [])), ts_prefix = [],
                  ts_pgid = None, ts_valid = False, ts_reason = Some e\<rparr>)
      else if rel_ep = ''pg'' \<and> ''pgid'' \<in> fst ` set (rq_args rq) then
        (case map_of (rq_args rq) ''pgid'' of
           Some (pgid # others) \<Rightarrow>
             Inr \<lparr>ts_target = Some (Node ''pg'' pgid), ts_prefix = [],
                  ts_pgid = Some pgid, ts_valid = True, ts_reason = None\<rparr>
         | _ \<Rightarrow> Inl KeyError)
      else Inr \<lparr>ts_target = None, ts_prefix = [], ts_pgid = None, ts_valid = True,
                ts_reason = None\<rparr>)"

text \<open>Lines 457-462: the dictionary \<^verbatim>\<open>args\<close> given to validate.\<close>

definition collect_args :: "(string \<times> string list) list \<Rightarrow> (string \<times> argval) list" where
  "collect_args as = map (\<lambda>(k, l). (k, case l of [v] \<Rightarrow> One v | _ \<Rightarrow> Many l)) as"

text \<open>
  The loop at lines 443-477 over the entries of the URL, with the messages
  collected in \<^verbatim>\<open>exc\<close>: it ends with the entry found and its \<^verbatim>\<open>argdict\<close>, with
  the help response of lines 449-453, or without an entry.
\<close>

datatype matched =
  Found urldict "string \<rightharpoonup> argval" | Helped response | Unmatched string

fun match_loop :: "ext \<Rightarrow> request \<Rightarrow> string \<Rightarrow> string \<Rightarrow> urldict list \<Rightarrow> matched" where
  "match_loop X rq pre exc [] = Unmatched exc"
| "match_loop X rq pre exc (ud # rest) =
     (if rq_method rq \<notin> set (u_methods ud) then match_loop X rq pre exc rest
      else if ''help'' \<in> fst ` set (rq_args rq) then
        Helped \<lparr>status = 200,
                body = pre @ concise_sig X (u_paramsig ud) @ '': '' @ u_help ud,
                content_type = Some ''text/plain''\<rparr>
      else if u_paramsig ud \<noteq> [] then
        (case validate X (collect_args (rq_args rq)) (u_paramsig ud) of
           Inr argdict \<Rightarrow> Found ud argdict
         | Inl e \<Rightarrow> match_loop X rq pre (exc @ e) rest)
      else if rq_args rq \<noteq> [] then match_loop X rq pre exc rest
      else Found ud Map.empty)"

text \<open>Lines 482-504: the command is sent and its result wrapped.\<close>

definition execute ::
  "ext \<Rightarrow> request \<Rightarrow> string option \<Rightarrow> string \<Rightarrow> target_state \<Rightarrow> urldict \<Rightarrow> (string \<rightharpoonup> argval)
     \<Rightarrow> response"
where
  "execute X rq fmt pre ts found argdict =
     (let argdict = argdict(''format'' \<mapsto> One (or_else fmt ''plain''));
          argdict = argdict(''module'' \<mapsto> One (u_module found));
          argdict = argdict(''perm'' \<mapsto> One (u_perm found));
          argdict = (if truthy (ts_pgid ts) then argdict(''pgid'' \<mapsto> One (or_else (ts_pgid ts) []))
                     else argdict);
          tgt = (case ts_target ts of None \<Rightarrow> Node ''mon'' [] | Some tg \<Rightarrow> tg)
      in case json_command X tgt pre (rq_data rq) argdict of
           (ret, outbuf, outs) \<Rightarrow>
             if ret \<noteq> 0 then
               make_response X fmt [] (''Error: '' @ outs @ '' ('' @ str_int ret @ '')'') 400
             else
               (make_response X fmt outbuf (if outs \<noteq> [] then outs else ''OK'') 200)
                 \<lparr>content_type :=
                    Some (if truthy fmt then ''application/'' @ py_replace (or_else fmt []) ''-pretty'' []
                          else ''text/plain'')\<rparr>)"

text \<open>
  Lines 389-393: the endpoint, with a leading slash. \<^verbatim>\<open>ep[0]\<close> raises
  IndexError on an empty endpoint.
\<close>

definition endpoint_path :: "string option \<Rightarrow> request \<Rightarrow> py_error + string" where
  "endpoint_path catchall_path rq =
     (let ep = py_replace (or_else catchall_path (rq_endpoint rq)) ''.<fmt>'' []
      in if ep = [] then Inl IndexError
         else Inr (if hd ep \<noteq> CHR ''/'' then ''/'' @ ep else ep))"

text \<open>Lines 428-429: the command prefix, unless the target branch has set it.\<close>

definition command_prefix :: "target_state \<Rightarrow> string \<Rightarrow> string" where
  "command_prefix ts rel_ep =
     (if ts_prefix ts = [] then strip (join '' '' (split_on CHR ''/'' rel_ep)) else ts_prefix ts)"

text \<open>Lines 432-439: the answer for an endpoint that is not in \<^verbatim>\<open>glob.urls\<close>.\<close>

definition unknown_endpoint ::
  "ext \<Rightarrow> gvars \<Rightarrow> string option \<Rightarrow> string \<Rightarrow> string \<Rightarrow> py_error + response"
where
  "unknown_endpoint X G fmt ep pre =
     (case show_human_help X (g_sigdict G) pre of
        Inl e \<Rightarrow> Inl e
      | Inr helptext \<Rightarrow>
          if helptext \<noteq> [] then
            Inr \<lparr>status = 400, body = helptext, content_type = Some ''text/html''\<rparr>
          else Inr (make_response X fmt [] (''Invalid endpoint '' @ ep) 400))"

text \<open>
  The handler, with the arguments Flask takes from the URL rule:
  \<^verbatim>\<open>catchall_path\<close>, \<^verbatim>\<open>fmt\<close> and \<^verbatim>\<open>target\<close>. The values of \<^verbatim>\<open>valid\<close> and
  \<^verbatim>\<open>reason\<close> are in the target state and, as in the source, nothing reads
  them.
\<close>

definition handler ::
  "ext \<Rightarrow> gvars \<Rightarrow> request \<Rightarrow> string option \<Rightarrow> string option \<Rightarrow> string option
     \<Rightarrow> py_error + response"
where
  "handler X G rq catchall_path fmt target =
     (case endpoint_path catchall_path rq of
        Inl e \<Rightarrow> Inl e
      | Inr ep \<Rightarrow>
          if \<not> startswith ep (g_baseurl G) then
            Inr (make_response X fmt [] ''Page not found'' 404)
          else
            let rel_ep = drop (length (g_baseurl G) + 1) ep;
                fmt = resolve_fmt fmt (rq_accept rq)
            in case resolve_target X rq rel_ep target of
                 Inl e \<Rightarrow> Inl e
               | Inr ts \<Rightarrow>
                   let pre = command_prefix ts rel_ep
                   in case g_urls G ep of
                        None \<Rightarrow> unknown_endpoint X G fmt ep pre
                      | Some urldicts \<Rightarrow>
                          (case match_loop X rq pre [] urldicts of
                             Helped r \<Rightarrow> Inr r
                           | Unmatched exc \<Rightarrow>
                               Inr (make_response X fmt [] (exc @ [CHR 0x0A]) 400)
                           | Found found argdict \<Rightarrow>
                               Inr (execute X rq fmt pre ts found argdict)))"

text \<open>The setup followed by one request: the handler on the table that api\_setup builds.\<close>

definition serve ::
  "ext \<Rightarrow> string \<Rightarrow> (string \<times> string list) list \<Rightarrow> (string \<times> cmddict) list \<Rightarrow> request
     \<Rightarrow> string option \<Rightarrow> string option \<Rightarrow> string option \<Rightarrow> py_error + response"
where
  "serve X baseurl items sigdict rq catchall_path fmt target =
     (case build_urls (instance_str X) baseurl items sigdict of
        Inl e \<Rightarrow> Inl e
      | Inr st \<Rightarrow>
          handler X \<lparr>g_baseurl = baseurl, g_urls = urls st, g_sigdict = sigdict\<rparr>
            rq catchall_path fmt target)"

section \<open>Concrete descriptors and collaborators for running the model\<close>

text \<open>
  A rendering of \<^verbatim>\<open>str(desc.instance)\<close> to run the compiler on concrete
  signatures: a prefix word is itself, a choice set is its strings joined by
  a bar, and any other parameter is its name in angle brackets.
\<close>

definition literal_str :: "argdesc \<Rightarrow> string" where
  "literal_str desc =
     (if t desc = CephPrefix then inst_prefix desc
      else if t desc = CephChoices then join ''|'' (inst_strings desc)
      else ''<'' @ name desc @ ''>'')"

definition d_prefix :: "string \<Rightarrow> argdesc" where
  "d_prefix w =
     \<lparr>t = CephPrefix, name = ''prefix'', req = True, inst_prefix = w, inst_strings = []\<rparr>"

definition d_choice :: "string \<Rightarrow> string list \<Rightarrow> bool \<Rightarrow> argdesc" where
  "d_choice n ss r =
     \<lparr>t = CephChoices, name = n, req = r, inst_prefix = [], inst_strings = ss\<rparr>"

definition d_param :: "string \<Rightarrow> string \<Rightarrow> bool \<Rightarrow> argdesc" where
  "d_param n ty r =
     \<lparr>t = CephOther ty, name = n, req = r, inst_prefix = [], inst_strings = []\<rparr>"

definition cmd_of :: "string \<Rightarrow> string \<Rightarrow> argdesc list \<Rightarrow> cmddesc" where
  "cmd_of h p s = \<lparr>c_sig = s, c_help = h, c_module = ''mon'', c_perm = p\<rparr>"

text \<open>A rendering of \<^verbatim>\<open>concise_sig\<close>: the descriptors' renderings, separated by blanks.\<close>

definition words_sig :: "argdesc list \<Rightarrow> string" where
  "words_sig s = join '' '' (map literal_str s)"

text \<open>The method lists of the entries that a run of the setup stored at a URL.\<close>

definition entry_methods :: "py_error + setup_state \<Rightarrow> string \<Rightarrow> string list list option" where
  "entry_methods r url =
     (case r of Inl e \<Rightarrow> None | Inr st \<Rightarrow> map_option (map u_methods) (urls st url))"

text \<open>
  Collaborators to run the dispatcher on concrete requests. The orderings,
  escapes and renderings follow the library functions on the inputs used
  here: text shorter than the wrap width, strings of printable characters,
  newlines, tabs and carriage returns, and JSON input that is the empty array
  or the empty object.
\<close>

definition descsort_words :: "cmddict \<Rightarrow> cmddict \<Rightarrow> int" where
  "descsort_words a b =
     (if words_sig (c_sig a) < words_sig (c_sig b) then - 1
      else if words_sig (c_sig a) = words_sig (c_sig b) then 0 else 1)"

definition wrap_short :: "string \<Rightarrow> nat \<Rightarrow> string list" where
  "wrap_short s n = (if s = [] then [] else [s])"

definition html_escape :: "string \<Rightarrow> string" where
  "html_escape s =
     py_replace (py_replace (py_replace (py_replace (py_replace s ''&'' ''&amp;'')
       ''<'' ''&lt;'') ''>'' ''&gt;'') [CHR 0x27] ''&#39;'') [CHR 0x22] ''&#34;''"

definition sax_escape :: "string \<Rightarrow> string" where
  "sax_escape s = py_replace (py_replace (py_replace s ''&'' ''&amp;'') ''>'' ''&gt;'') ''<'' ''&lt;''"

text \<open>An OSD name is \<open>osd.N\<close> or \<open>N\<close> for a decimal number \<open>N\<close>.\<close>

definition osdname_decimal :: "string \<Rightarrow> string + string \<times> string" where
  "osdname_decimal s =
     (let i = (if startswith s ''osd.'' then drop 4 s else s)
      in if i \<noteq> [] \<and> list_all is_digit i then Inr (''osd'', i)
         else Inl (''osd id '' @ i @ '' not integer''))"

text \<open>
  Modelled from the spec: \<^verbatim>\<open>validate\<close> of ceph\_argparse is not part of this
  module. Required parameters must be present, unknown extra parameters are
  rejected, and a value must be convertible to the type of its descriptor
  (\<open>conv\<close>); the result maps each name to its value.
\<close>

definition spec_validate ::
  "(argdesc \<Rightarrow> argval \<Rightarrow> bool) \<Rightarrow> (string \<times> argval) list \<Rightarrow> argdesc list
     \<Rightarrow> string + (string \<rightharpoonup> argval)"
where
  "spec_validate conv as paramsig =
     (case filter (\<lambda>d. req d \<and> name d \<notin> fst ` set as) paramsig of
        d # ds \<Rightarrow> Inl (''missing required parameter '' @ name d)
      | [] \<Rightarrow>
          (case filter (\<lambda>(k, v). k \<notin> name ` set paramsig) as of
             (k, v) # kvs \<Rightarrow> Inl (''unused arguments: '' @ k)
           | [] \<Rightarrow>
               (case filter (\<lambda>d. case map_of as (name d) of None \<Rightarrow> False | Some v \<Rightarrow> \<not> conv d v)
                       paramsig of
                  d # ds \<Rightarrow> Inl (''invalid value for '' @ name d)
                | [] \<Rightarrow> Inr (map_of as))))"

definition loads_empty :: "string \<Rightarrow> json option" where
  "loads_empty s =
     (if strip s = ''[]'' then Some (JArr [])
      else if strip s = ''{}'' then Some (JObj [])
      else None)"

text \<open>A JSON string literal: quotes, backslashes and control characters are escaped.\<close>

definition json_escape :: "char \<Rightarrow> string" where
  "json_escape c =
     (if c = CHR 0x22 then [CHR 0x5C, CHR 0x22]
      else if c = CHR 0x5C then [CHR 0x5C, CHR 0x5C]
      else if c = CHR 0x0A then [CHR 0x5C, CHR ''n'']
      else if c = CHR 0x0D then [CHR 0x5C, CHR ''r'']
      else if c = CHR 0x09 then [CHR 0x5C, CHR ''t'']
      else [c])"

definition json_quote :: "string \<Rightarrow> string" where
  "json_quote s = [CHR 0x22] @ concat (map json_escape s) @ [CHR 0x22]"

fun dumps_plain :: "json \<Rightarrow> string" where
  "dumps_plain JNull = ''null''"
| "dumps_plain (JBool b) = (if b then ''true'' else ''false'')"
| "dumps_plain (JNum i) = str_int i"
| "dumps_plain (JStr s) = json_quote s"
| "dumps_plain (JArr xs) = ''['' @ join '', '' (map dumps_plain xs) @ '']''"
| "dumps_plain (JObj kvs) =
     ''{'' @ join '', '' (map (\<lambda>kv. json_quote (fst kv) @ '': '' @ dumps_plain (snd kv)) kvs)
     @ ''}''"

text \<open>A cluster that answers every command with status 0 and names the node it was sent to.\<close>

definition echo_command ::
  "target \<Rightarrow> string \<Rightarrow> string \<Rightarrow> (string \<rightharpoonup> argval) \<Rightarrow> int \<times> string \<times> string"
where
  "echo_command tg pre inbuf argdict =
     (0, (case tg of Raw s \<Rightarrow> ''sent to '' @ s | Node nt ni \<Rightarrow> ''sent to ('' @ nt @ '', '' @ ni @ '')''),
      [])"

definition demo_ext :: ext where
  "demo_ext =
     \<lparr>instance_str = literal_str, desc_str = literal_str, concise_sig = words_sig,
      descsort = descsort_words, wrap = wrap_short, escape = html_escape,
      xml_escape = sax_escape, osdname_valid = osdname_decimal,
      validate = spec_validate (\<lambda>d v. True), json_loads = loads_empty,
      json_dumps = dumps_plain, json_command = echo_command\<rparr>"

text \<open>A catalog of two commands under \<open>osd pool\<close>, one read-only and one write-only.\<close>

definition help_cat :: "(string \<times> cmddict) list" where
  "help_cat =
     [(''cmd000'', with_flavor (cmd_of ''show pool statistics'' ''r''
          [d_prefix ''osd'', d_prefix ''pool'', d_prefix ''stats'']) Mon),
      (''cmd001'', with_flavor (cmd_of ''set a pool value'' ''w''
          [d_prefix ''osd'', d_prefix ''pool'', d_prefix ''set'',
           d_param ''pool'' ''CephPoolname'' True]) Mon)]"

text \<open>A catalog of two monitor commands and one OSD command, requests and an entry of its table.\<close>

definition demo_sigdict :: "(string \<times> cmddict) list" where
  "demo_sigdict =
     [(''cmd000'', with_flavor (cmd_of ''show cluster status'' ''r'' [d_prefix ''status'']) Mon),
      (''cmd001'', with_flavor (cmd_of ''show all OSD ids'' ''r''
          [d_prefix ''osd'', d_prefix ''ls'', d_param ''epoch'' ''CephInt'' False]) Mon),
      (''cmd2'', with_flavor (cmd_of ''get the version'' ''r'' [d_prefix ''version'']) Tellosd)]"

definition get_request :: "string \<Rightarrow> (string \<times> string list) list \<Rightarrow> string list \<Rightarrow> request" where
  "get_request ep as accept =
     \<lparr>rq_endpoint = ep, rq_method = ''GET'', rq_args = as, rq_accept = accept, rq_data = []\<rparr>"

definition ls_entry :: urldict where
  "ls_entry =
     \<lparr>u_paramsig = [d_param ''epoch'' ''CephInt'' False], u_help = ''show all OSD ids'',
      u_module = ''mon'', u_perm = ''r'', u_flavor = Mon, u_methods = [''GET'']\<rparr>"

definition demo_gvars :: gvars where
  "demo_gvars =
     \<lparr>g_baseurl = ''/api/v0.1'', g_urls = [''/api/v0.1/osd/ls'' \<mapsto> [ls_entry]],
      g_sigdict = demo_sigdict\<rparr>"

definition no_target :: target_state where
  "no_target =
     \<lparr>ts_target = None, ts_prefix = [], ts_pgid = None, ts_valid = True, ts_reason = None\<rparr>"

text \<open>
  What a descriptor adds to the URL once parameters are being collected: only
  a prefix word, or the target placeholder of a tell command.
\<close>

definition late_segment :: "flavor \<Rightarrow> argdesc \<Rightarrow> string" where
  "late_segment fl desc =
     (if t desc = CephPrefix then ''/'' @ inst_prefix desc
      else if fl = Tellosd \<and> (t desc, name desc) = (CephOsdName, ''target'') then ''/<target>''
      else [])"

definition is_late_param :: "flavor \<Rightarrow> argdesc \<Rightarrow> bool" where
  "is_late_param fl desc =
     (t desc \<noteq> CephPrefix \<and> \<not> (fl = Tellosd \<and> (t desc, name desc) = (CephOsdName, ''target'')))"

section \<open>Invariants of the loop of api\_setup\<close>

definition all_methods :: "(string \<times> string list) list \<Rightarrow> string set" where
  "all_methods items = \<Union> (set ` snd ` set items)"

definition perms_at :: "setup_state \<Rightarrow> string \<Rightarrow> string list" where
  "perms_at st u = (case urls st u of None \<Rightarrow> [] | Some es \<Rightarrow> map u_perm es)"

text \<open>Every method list in the state is drawn from METHOD\_DICT.\<close>

definition inv_bound :: "(string \<times> string list) list \<Rightarrow> setup_state \<Rightarrow> bool" where
  "inv_bound items st \<longleftrightarrow>
     (\<forall>ms. methods st = Some ms \<longrightarrow> set ms \<subseteq> all_methods items) \<and>
     (\<forall>r \<in> set (rules st). set (snd r) \<subseteq> all_methods items) \<and>
     (\<forall>u es e. urls st u = Some es \<longrightarrow> e \<in> set es \<longrightarrow> set (u_methods e) \<subseteq> all_methods items)"

text \<open>An entry whose permission names a key of METHOD\_DICT has that key's methods.\<close>

definition inv_perm :: "(string \<times> string list) list \<Rightarrow> setup_state \<Rightarrow> bool" where
  "inv_perm items st \<longleftrightarrow>
     (\<forall>u es e v. urls st u = Some es \<longrightarrow> e \<in> set es \<longrightarrow>
        perm_methods items (u_perm e) None = Some v \<longrightarrow> u_methods e = v)"

text \<open>Every URL of the table has a rule whose methods cover those of all its entries.\<close>

definition inv_rule :: "setup_state \<Rightarrow> bool" where
  "inv_rule st \<longleftrightarrow>
     (\<forall>u es. urls st u = Some es \<longrightarrow>
        (\<exists>ms. (u, ms) \<in> set (rules st) \<and> (\<forall>e \<in> set es. set (u_methods e) \<subseteq> set ms)))"

definition setup_inv :: "(string \<times> string list) list \<Rightarrow> setup_state \<Rightarrow> bool" where
  "setup_inv items st \<longleftrightarrow> inv_bound items st \<and> inv_perm items st \<and> inv_rule st"

section \<open>The command sent and the answer to it\<close>




section \<open>Properties of the route compiler\<close>

lemma url_step_late:
  "params \<noteq> [] \<Longrightarrow>
   url_step istr fl (url, params) desc =
     (url @ late_segment fl desc, params @ (if is_late_param fl desc then [desc] else []))"
  by (simp add: url_step_def late_segment_def is_late_param_def)

lemma url_loop_late:
  "params \<noteq> [] \<Longrightarrow>
   url_loop istr fl (url, params) sig =
     (url @ concat (map (late_segment fl) sig), params @ filter (is_late_param fl) sig)"
proof (induction sig arbitrary: url params)
  case Nil
  then show ?case by (simp add: url_loop_def)
next
  case (Cons d ds)
  have "url_loop istr fl (url, params) (d # ds) =
          url_loop istr fl (url_step istr fl (url, params) d) ds"
    by (simp add: url_loop_def)
  also have "\<dots> = url_loop istr fl
      (url @ late_segment fl d, params @ (if is_late_param fl d then [d] else [])) ds"
    using Cons.prems by (simp add: url_step_late)
  also have "\<dots> = (url @ concat (map (late_segment fl) (d # ds)),
                    params @ filter (is_late_param fl) (d # ds))"
    using Cons.prems Cons.IH [of "params @ (if is_late_param fl d then [d] else [])"
                                 "url @ late_segment fl d"]
    by simp
  finally show ?case .
qed

lemma url_loop_append:
  "url_loop istr fl st (xs @ ys) = url_loop istr fl (url_loop istr fl st xs) ys"
  by (simp add: url_loop_def)

text \<open>
  C6. Once the loop of generate\_url\_and\_params has appended a descriptor to
  \<open>params\<close> (after the descriptors \<open>pre\<close> of the signature it compiles, the list
  \<open>p1\<close> is not empty), every later CephChoices descriptor \<open>d\<close> is appended to
  \<open>params\<close> as well, whatever its strings, its required flag and its rendering
  are: the parameters returned are \<open>p1\<close>, then \<open>d\<close>, then the later non-prefix
  descriptors in order, and \<open>d\<close> adds nothing to the URL, which grows after \<open>u1\<close>
  only by prefix words and the tell placeholder.
\<close>

theorem choices_after_param_is_param:
  assumes "compiled_sig fl sig = pre @ d # post"
    and "url_loop istr fl ([], []) pre = (u1, p1)"
    and "p1 \<noteq> []"
    and "t d = CephChoices"
  shows "generate_url_and_params istr baseurl sig fl =
           (baseurl @ u1 @ concat (map (late_segment fl) post),
            p1 @ d # filter (is_late_param fl) post)"
proof -
  have seg: "late_segment fl d = []"
    using assms(4) by (simp add: late_segment_def)
  have par: "is_late_param fl d"
    using assms(4) by (simp add: is_late_param_def)
  have "url_loop istr fl ([], []) (pre @ d # post) = url_loop istr fl (u1, p1) (d # post)"
    using assms(2) by (simp add: url_loop_append)
  also have "\<dots> = (u1 @ concat (map (late_segment fl) (d # post)),
                    p1 @ filter (is_late_param fl) (d # post))"
    using assms(3) by (rule url_loop_late)
  finally have "url_loop istr fl ([], []) (pre @ d # post) =
      (u1 @ concat (map (late_segment fl) post), p1 @ d # filter (is_late_param fl) post)"
    using seg par by simp
  then show ?thesis
    using assms(1) by (simp add: generate_url_and_params_def)
qed


theorem choices_after_param_is_param_witness:
  "generate_url_and_params literal_str ''/api/v0.1''
     [d_prefix ''osd'', d_param ''pool'' ''CephPoolname'' True, d_choice ''var'' [''size''] True,
      d_prefix ''now''] Mon =
   (''/api/v0.1/osd/now'',
    [d_param ''pool'' ''CephPoolname'' True, d_choice ''var'' [''size''] True])"
  using choices_after_param_is_param
    [of Mon "[d_prefix ''osd'', d_param ''pool'' ''CephPoolname'' True,
              d_choice ''var'' [''size''] True, d_prefix ''now'']"
        "[d_prefix ''osd'', d_param ''pool'' ''CephPoolname'' True]"
        "d_choice ''var'' [''size''] True" "[d_prefix ''now'']" literal_str
        "''/osd''" "[d_param ''pool'' ''CephPoolname'' True]" "''/api/v0.1''"]
  by (simp add: compiled_sig_def url_loop_def url_step_def d_prefix_def d_choice_def d_param_def
      late_segment_def is_late_param_def)

section \<open>Properties of the catalog builder\<close>

lemma perm_methods_cases:
  assumes "items = METHOD_DICT \<or> items = rev METHOD_DICT"
  shows "perm_methods items p m0 =
     (if py_in ''w'' p \<and> (py_in ''r'' p \<longrightarrow> items = METHOD_DICT) then Some [''PUT'', ''DELETE'']
      else if py_in ''r'' p then Some [''GET'']
      else m0)"
  using assms by (auto simp: perm_methods_def METHOD_DICT_def)

text \<open>
  C3, as the spec states it, fails: a command whose permission is \<open>rw\<close> gets
  PUT and DELETE when METHOD\_DICT iterates \<open>r\<close> before \<open>w\<close>, and GET alone in
  the other order; in neither order does its entry allow GET, PUT and DELETE.
\<close>

theorem rw_methods_counterexample:
  "entry_methods (build_urls literal_str ''/api/v0.1'' METHOD_DICT
       [(''cmd000'', with_flavor (cmd_of ''set a pool value'' ''rw''
                                   [d_prefix ''osd'', d_prefix ''set'']) Mon)])
     ''/api/v0.1/osd/set'' = Some [[''PUT'', ''DELETE'']]
   \<and> entry_methods (build_urls literal_str ''/api/v0.1'' (rev METHOD_DICT)
       [(''cmd000'', with_flavor (cmd_of ''set a pool value'' ''rw''
                                   [d_prefix ''osd'', d_prefix ''set'']) Mon)])
     ''/api/v0.1/osd/set'' = Some [[''GET'']]"
  by (simp add: entry_methods_def build_urls_def setup_step_def generate_url_and_params_def
      compiled_sig_def url_loop_def url_step_def with_flavor_def cmd_of_def d_prefix_def
      perm_methods_def METHOD_DICT_def Let_def)

text \<open>
  C3, amended. For a command whose permission string contains \<open>r\<close> or \<open>w\<close>,
  the iteration of api\_setup succeeds and the entry it appends at the
  command's URL has the method list of the last key of METHOD\_DICT, in the
  order the dictionary iterates, that occurs in the permission: GET for a
  permission with \<open>r\<close> and no \<open>w\<close>, PUT and DELETE for one with \<open>w\<close> and no \<open>r\<close>,
  and for one with both PUT and DELETE when \<open>r\<close> is iterated before \<open>w\<close>, GET
  otherwise.
\<close>

theorem perm_methods_last_key:
  assumes "items = METHOD_DICT \<or> items = rev METHOD_DICT"
    and "py_in ''r'' (c_perm cmd) \<or> py_in ''w'' (c_perm cmd)"
  shows "\<exists>st' es. setup_step istr baseurl items st cmd = Inr st' \<and>
           urls st' (fst (generate_url_and_params istr baseurl (c_sig cmd) (c_flavor cmd))) = Some es \<and>
           es \<noteq> [] \<and>
           u_methods (last es) =
             (if py_in ''w'' (c_perm cmd) \<and> (py_in ''r'' (c_perm cmd) \<longrightarrow> items = METHOD_DICT)
              then [''PUT'', ''DELETE''] else [''GET''])"
proof -
  obtain url params where
    g: "generate_url_and_params istr baseurl (c_sig cmd) (c_flavor cmd) = (url, params)"
    by (cases "generate_url_and_params istr baseurl (c_sig cmd) (c_flavor cmd)")
  let ?ms = "if py_in ''w'' (c_perm cmd) \<and> (py_in ''r'' (c_perm cmd) \<longrightarrow> items = METHOD_DICT)
              then [''PUT'', ''DELETE''] else [''GET'']"
  have pm: "perm_methods items (c_perm cmd) (methods st) = Some ?ms"
    using assms(2) by (auto simp: perm_methods_cases [OF assms(1)])
  show ?thesis
    using g pm by (cases "urls st url") (simp_all add: setup_step_def Let_def)
qed

theorem perm_methods_last_key_witness:
  "\<exists>st' es. setup_step literal_str ''/api/v0.1'' METHOD_DICT
                \<lparr>urls = Map.empty, rules = [], methods = None\<rparr>
                (with_flavor (cmd_of ''set a pool value'' ''rw''
                               [d_prefix ''osd'', d_prefix ''set'']) Mon) = Inr st' \<and>
     urls st' ''/api/v0.1/osd/set'' = Some es \<and> es \<noteq> [] \<and>
     u_methods (last es) = [''PUT'', ''DELETE'']"
  using perm_methods_last_key [of METHOD_DICT
      "with_flavor (cmd_of ''set a pool value'' ''rw'' [d_prefix ''osd'', d_prefix ''set'']) Mon"
      literal_str "''/api/v0.1''" "\<lparr>urls = Map.empty, rules = [], methods = None\<rparr>"]
  by (simp add: generate_url_and_params_def
      compiled_sig_def url_loop_def url_step_def with_flavor_def cmd_of_def d_prefix_def)

lemma perm_methods_None:
  "perm_methods items p m0 = (case perm_methods items p None of Some v \<Rightarrow> Some v | None \<Rightarrow> m0)"
  unfolding perm_methods_def
proof (induction items arbitrary: m0 rule: rev_induct)
  case Nil
  show ?case by simp
next
  case (snoc x xs)
  show ?case using snoc [of m0] by (cases x) (simp split: option.splits)
qed

lemma perm_methods_in_items:
  "perm_methods items p None = Some v \<Longrightarrow> set v \<subseteq> all_methods items"
  unfolding perm_methods_def all_methods_def
proof (induction items arbitrary: v rule: rev_induct)
  case Nil
  then show ?case by simp
next
  case (snoc x xs)
  then show ?case by (cases x) (auto split: if_splits)
qed

lemma setup_step_Inr:
  assumes "setup_step istr baseurl items st cmd = Inr st'"
  obtains url ms ms' old ud where
    "url = fst (generate_url_and_params istr baseurl (c_sig cmd) (c_flavor cmd))"
    "perm_methods items (c_perm cmd) (methods st) = Some ms"
    "old = (case urls st url of None \<Rightarrow> [] | Some es \<Rightarrow> es)"
    "urls st' = (urls st)(url \<mapsto> old @ [ud])"
    "u_methods ud = ms" "u_perm ud = c_perm cmd"
    "rules st' = rules st @ [(url, ms'), (url @ ''.<fmt>'', ms')]"
    "methods st' = Some ms'"
    "set ms' = set ms \<union> \<Union> (set ` u_methods ` set old)"
proof -
  obtain url params where
    g: "generate_url_and_params istr baseurl (c_sig cmd) (c_flavor cmd) = (url, params)"
    by (cases "generate_url_and_params istr baseurl (c_sig cmd) (c_flavor cmd)")
  from assms g obtain ms where pm: "perm_methods items (c_perm cmd) (methods st) = Some ms"
    by (auto simp: setup_step_def split: option.splits)
  let ?ud = "\<lparr>u_paramsig = params, u_help = c_help cmd, u_module = c_module cmd,
              u_perm = c_perm cmd, u_flavor = c_flavor cmd, u_methods = ms\<rparr>"
  show thesis
  proof (cases "urls st url")
    case None
    with assms g pm have "st' = \<lparr>urls = (urls st)(url \<mapsto> [?ud]),
        rules = rules st @ [(url, ms), (url @ ''.<fmt>'', ms)], methods = Some ms\<rparr>"
      by (simp add: setup_step_def Let_def)
    then show thesis
      using that [of url ms "[]" ?ud ms] g pm None by simp
  next
    case (Some es)
    let ?ms' = "remdups (ms @ concat (map u_methods es))"
    from Some assms g pm have "st' = \<lparr>urls = (urls st)(url \<mapsto> es @ [?ud]),
        rules = rules st @ [(url, ?ms'), (url @ ''.<fmt>'', ?ms')], methods = Some ?ms'\<rparr>"
      by (simp add: setup_step_def Let_def)
    then show thesis
      using that [of url ms es ?ud ?ms'] g pm Some by simp
  qed
qed


lemma old_entries:
  "old = (case urls st url of None \<Rightarrow> [] | Some es \<Rightarrow> es) \<Longrightarrow> e \<in> set old \<Longrightarrow>
   \<exists>es. urls st url = Some es \<and> e \<in> set es"
  by (cases "urls st url") auto

lemma setup_step_bound:
  assumes "inv_bound items st" and "setup_step istr baseurl items st cmd = Inr st'"
  shows "inv_bound items st'"
proof -
  from assms(2) obtain url ms ms' old ud where
    pm: "perm_methods items (c_perm cmd) (methods st) = Some ms"
    and old: "old = (case urls st url of None \<Rightarrow> [] | Some es \<Rightarrow> es)"
    and urls': "urls st' = (urls st)(url \<mapsto> old @ [ud])"
    and ud: "u_methods ud = ms"
    and rules': "rules st' = rules st @ [(url, ms'), (url @ ''.<fmt>'', ms')]"
    and methods': "methods st' = Some ms'"
    and ms': "set ms' = set ms \<union> \<Union> (set ` u_methods ` set old)"
    by (rule setup_step_Inr)
  have ms_sub: "set ms \<subseteq> all_methods items"
  proof (cases "perm_methods items (c_perm cmd) None")
    case None
    with pm have "methods st = Some ms"
      using perm_methods_None [of items "c_perm cmd" "methods st"] by simp
    with assms(1) show ?thesis by (simp add: inv_bound_def)
  next
    case (Some v)
    with pm have "v = ms"
      using perm_methods_None [of items "c_perm cmd" "methods st"] by simp
    with Some show ?thesis using perm_methods_in_items by blast
  qed
  have old_sub: "set (u_methods e) \<subseteq> all_methods items" if "e \<in> set old" for e
    using old_entries [OF old that] assms(1) unfolding inv_bound_def by blast
  have ms'_sub: "set ms' \<subseteq> all_methods items"
    using ms' ms_sub old_sub by auto
  have 1: "\<forall>m. methods st' = Some m \<longrightarrow> set m \<subseteq> all_methods items"
    using methods' ms'_sub by simp
  have 2: "\<forall>r \<in> set (rules st'). set (snd r) \<subseteq> all_methods items"
    using rules' ms'_sub assms(1) unfolding inv_bound_def by auto
  have 3: "set (u_methods e) \<subseteq> all_methods items" if "urls st' u = Some es" "e \<in> set es" for u es e
  proof (cases "u = url")
    case True
    with that urls' have "e \<in> set old \<or> e = ud" by auto
    then show ?thesis using old_sub ud ms_sub by auto
  next
    case False
    with that urls' have "urls st u = Some es" by simp
    with that(2) assms(1) show ?thesis unfolding inv_bound_def by blast
  qed
  show ?thesis unfolding inv_bound_def using 1 2 3 by blast
qed

lemma setup_step_perm:
  assumes "inv_perm items st" and "setup_step istr baseurl items st cmd = Inr st'"
  shows "inv_perm items st'"
proof -
  from assms(2) obtain url ms ms' old ud where
    pm: "perm_methods items (c_perm cmd) (methods st) = Some ms"
    and old: "old = (case urls st url of None \<Rightarrow> [] | Some es \<Rightarrow> es)"
    and urls': "urls st' = (urls st)(url \<mapsto> old @ [ud])"
    and ud: "u_methods ud = ms" "u_perm ud = c_perm cmd"
    by (rule setup_step_Inr)
  have new: "u_methods ud = v" if "perm_methods items (u_perm ud) None = Some v" for v
    using that pm ud perm_methods_None [of items "c_perm cmd" "methods st"] by simp
  have "u_methods e = v"
    if "urls st' u = Some es" "e \<in> set es" "perm_methods items (u_perm e) None = Some v"
    for u es e v
  proof (cases "u = url")
    case True
    with that urls' have "e \<in> set old \<or> e = ud" by auto
    then show ?thesis
    proof
      assume "e \<in> set old"
      from old_entries [OF old this] that(3) assms(1) show ?thesis
        unfolding inv_perm_def by blast
    next
      assume "e = ud"
      with new that(3) show ?thesis by simp
    qed
  next
    case False
    with that urls' have "urls st u = Some es" by simp
    with that assms(1) show ?thesis unfolding inv_perm_def by blast
  qed
  then show ?thesis unfolding inv_perm_def by blast
qed

lemma setup_step_rule:
  assumes "inv_rule st" and "setup_step istr baseurl items st cmd = Inr st'"
  shows "inv_rule st'"
proof -
  from assms(2) obtain url ms ms' old ud where
    old: "old = (case urls st url of None \<Rightarrow> [] | Some es \<Rightarrow> es)"
    and urls': "urls st' = (urls st)(url \<mapsto> old @ [ud])"
    and ud: "u_methods ud = ms"
    and rules': "rules st' = rules st @ [(url, ms'), (url @ ''.<fmt>'', ms')]"
    and ms': "set ms' = set ms \<union> \<Union> (set ` u_methods ` set old)"
    by (rule setup_step_Inr)
  have "\<exists>m. (u, m) \<in> set (rules st') \<and> (\<forall>e \<in> set es. set (u_methods e) \<subseteq> set m)"
    if "urls st' u = Some es" for u es
  proof (cases "u = url")
    case True
    with that urls' have es: "es = old @ [ud]" by simp
    have "(u, ms') \<in> set (rules st')" using True rules' by simp
    moreover have "\<forall>e \<in> set es. set (u_methods e) \<subseteq> set ms'"
      using es ms' ud by auto
    ultimately show ?thesis by blast
  next
    case False
    with that urls' have "urls st u = Some es" by simp
    with assms(1) obtain m where "(u, m) \<in> set (rules st)" "\<forall>e \<in> set es. set (u_methods e) \<subseteq> set m"
      unfolding inv_rule_def by blast
    then show ?thesis using rules' by auto
  qed
  then show ?thesis unfolding inv_rule_def by blast
qed

lemma setup_loop_inv:
  "setup_inv items st \<Longrightarrow> setup_loop istr baseurl items st cmds = Inr st' \<Longrightarrow> setup_inv items st'"
proof (induction cmds arbitrary: st)
  case Nil
  then show ?case by simp
next
  case (Cons c cs)
  from Cons.prems(2) obtain st1 where
    s1: "setup_step istr baseurl items st c = Inr st1"
    and s2: "setup_loop istr baseurl items st1 cs = Inr st'"
    by (auto split: sum.splits)
  have "setup_inv items st1"
    using Cons.prems(1) s1 setup_step_bound setup_step_perm setup_step_rule
    unfolding setup_inv_def by blast
  then show ?case using s2 by (rule Cons.IH)
qed

lemma setup_inv_init: "setup_inv items \<lparr>urls = Map.empty, rules = [], methods = None\<rparr>"
  by (simp add: setup_inv_def inv_bound_def inv_perm_def inv_rule_def)


lemma setup_step_perms_at:
  assumes "setup_step istr baseurl items st cmd = Inr st'"
  shows "perms_at st' u =
           perms_at st u @ (if route_of istr baseurl cmd = u then [c_perm cmd] else [])"
proof -
  from assms obtain url ms ms' old ud where
    url: "url = fst (generate_url_and_params istr baseurl (c_sig cmd) (c_flavor cmd))"
    and old: "old = (case urls st url of None \<Rightarrow> [] | Some es \<Rightarrow> es)"
    and urls': "urls st' = (urls st)(url \<mapsto> old @ [ud])"
    and ud: "u_perm ud = c_perm cmd"
    by (rule setup_step_Inr)
  show ?thesis
  proof (cases "u = url")
    case True
    then show ?thesis
      using url old urls' ud by (simp add: perms_at_def route_of_def split: option.splits)
  next
    case False
    then show ?thesis
      using url urls' by (simp add: perms_at_def route_of_def)
  qed
qed

lemma setup_loop_perms_at:
  "setup_loop istr baseurl items st cmds = Inr st' \<Longrightarrow>
   perms_at st' u = perms_at st u @ map c_perm (filter (\<lambda>c. route_of istr baseurl c = u) cmds)"
proof (induction cmds arbitrary: st)
  case Nil
  then show ?case by simp
next
  case (Cons c cs)
  from Cons.prems obtain st1 where
    s1: "setup_step istr baseurl items st c = Inr st1"
    and s2: "setup_loop istr baseurl items st1 cs = Inr st'"
    by (auto split: sum.splits)
  show ?case
    using Cons.IH [OF s2] setup_step_perms_at [OF s1, of u] by simp
qed

lemma all_methods_METHOD_DICT:
  "items = METHOD_DICT \<or> items = rev METHOD_DICT \<Longrightarrow>
   all_methods items = {''GET'', ''PUT'', ''DELETE''}"
  by (auto simp: all_methods_def METHOD_DICT_def)

text \<open>
  C4. When the commands of the catalog that compile to one URL have the
  permissions \<open>r\<close> and \<open>w\<close>, and the setup succeeds, one of the calls of
  add\_url\_rule for that URL lists exactly GET, PUT and DELETE, and these are
  the methods accepted for the URL: the rule is added again with the union of
  the methods of all entries of the URL, not with those of the new entry.
\<close>

theorem same_route_methods_union:
  assumes items: "items = METHOD_DICT \<or> items = rev METHOD_DICT"
    and run: "build_urls istr baseurl items sigdict = Inr st"
    and perms: "set (map c_perm (filter (\<lambda>c. route_of istr baseurl c = url) (map snd sigdict)))
                  = {''r'', ''w''}"
  shows "accepted_methods (rules st) url = {''GET'', ''PUT'', ''DELETE''} \<and>
         (\<exists>ms \<in> set (rule_methods (rules st) url). set ms = {''GET'', ''PUT'', ''DELETE''})"
proof -
  let ?M = "{''GET'', ''PUT'', ''DELETE''}"
  let ?st0 = "\<lparr>urls = Map.empty, rules = [], methods = None\<rparr>"
  from run obtain st1 where
    loop: "setup_loop istr baseurl items ?st0 (map snd sigdict) = Inr st1"
    and st: "st = st1\<lparr>rules := rules st1 @ [(''/<path:catchall_path>'', [''GET'', ''PUT''])]\<rparr>"
    by (auto simp: build_urls_def split: sum.splits)
  have inv: "setup_inv items st1"
    using setup_inv_init loop by (rule setup_loop_inv)
  have M: "all_methods items = ?M"
    using items by (rule all_methods_METHOD_DICT)
  have "perms_at st1 url =
          map c_perm (filter (\<lambda>c. route_of istr baseurl c = url) (map snd sigdict))"
    using setup_loop_perms_at [OF loop, of url] by (simp add: perms_at_def)
  with perms have pset: "set (perms_at st1 url) = {''r'', ''w''}"
    by (simp only:)
  then obtain es where es: "urls st1 url = Some es"
    by (cases "urls st1 url") (auto simp: perms_at_def)
  with pset have pes: "u_perm ` set es = {''r'', ''w''}"
    by (simp add: perms_at_def)
  have "''r'' \<in> u_perm ` set es" and "''w'' \<in> u_perm ` set es"
    unfolding pes by blast+
  then obtain er ew where er: "er \<in> set es" "u_perm er = ''r''"
    and ew: "ew \<in> set es" "u_perm ew = ''w''"
    by (auto simp only: image_iff)
  have pr: "perm_methods items ''r'' None = Some [''GET'']"
    and pw: "perm_methods items ''w'' None = Some [''PUT'', ''DELETE'']"
    using items by (auto simp: perm_methods_def METHOD_DICT_def)
  have ip: "inv_perm items st1"
    using inv by (simp add: setup_inv_def)
  have mr: "u_methods er = [''GET'']"
    using ip es er(1) pr unfolding inv_perm_def er(2) [symmetric] by blast
  have mw: "u_methods ew = [''PUT'', ''DELETE'']"
    using ip es ew(1) pw unfolding inv_perm_def ew(2) [symmetric] by blast
  from inv es obtain ms where ms: "(url, ms) \<in> set (rules st1)"
    and cover: "\<forall>e \<in> set es. set (u_methods e) \<subseteq> set ms"
    unfolding setup_inv_def inv_rule_def by blast
  have bound: "\<forall>r \<in> set (rules st). set (snd r) \<subseteq> ?M"
    using inv M st unfolding setup_inv_def inv_bound_def by auto
  have ms_in: "ms \<in> set (rule_methods (rules st) url)"
    using ms st by (force simp: rule_methods_def)
  have "set (u_methods er) \<subseteq> set ms" and "set (u_methods ew) \<subseteq> set ms"
    using cover er(1) ew(1) by blast+
  then have "?M \<subseteq> set ms"
    unfolding mr mw by simp
  moreover have "(url, ms) \<in> set (rules st)"
    using ms st by simp
  then have "set ms \<subseteq> ?M"
    using bound by force
  ultimately have full: "set ms = ?M" by (rule subset_antisym [rotated])
  have "accepted_methods (rules st) url \<subseteq> ?M"
    using bound unfolding accepted_methods_def rule_methods_def by force
  moreover have "?M \<subseteq> accepted_methods (rules st) url"
    using ms_in full unfolding accepted_methods_def by blast
  ultimately show ?thesis using ms_in full by blast
qed


theorem same_route_methods_union_witness:
  "\<exists>st. build_urls literal_str ''/api/v0.1'' METHOD_DICT
          [(''cmd000'', with_flavor (cmd_of ''show the crush map'' ''r''
              [d_prefix ''osd'', d_prefix ''crush'', d_param ''name'' ''CephString'' False]) Mon),
           (''cmd001'', with_flavor (cmd_of ''set a crush weight'' ''w''
              [d_prefix ''osd'', d_prefix ''crush'', d_param ''weight'' ''CephFloat'' True]) Mon)]
        = Inr st \<and>
        accepted_methods (rules st) ''/api/v0.1/osd/crush'' = {''GET'', ''PUT'', ''DELETE''}"
proof -
  let ?cat = "[(''cmd000'', with_flavor (cmd_of ''show the crush map'' ''r''
              [d_prefix ''osd'', d_prefix ''crush'', d_param ''name'' ''CephString'' False]) Mon),
           (''cmd001'', with_flavor (cmd_of ''set a crush weight'' ''w''
              [d_prefix ''osd'', d_prefix ''crush'', d_param ''weight'' ''CephFloat'' True]) Mon)]"
  have "\<exists>st. build_urls literal_str ''/api/v0.1'' METHOD_DICT ?cat = Inr st"
    by (simp add: build_urls_def setup_step_def generate_url_and_params_def
      compiled_sig_def url_loop_def url_step_def with_flavor_def cmd_of_def d_prefix_def
      d_param_def perm_methods_def METHOD_DICT_def Let_def)
  then obtain st where run: "build_urls literal_str ''/api/v0.1'' METHOD_DICT ?cat = Inr st"
    by blast
  have perms: "set (map c_perm (filter (\<lambda>c. route_of literal_str ''/api/v0.1'' c =
                 ''/api/v0.1/osd/crush'') (map snd ?cat))) = {''r'', ''w''}"
    by (simp add: route_of_def generate_url_and_params_def
      compiled_sig_def url_loop_def url_step_def with_flavor_def cmd_of_def d_prefix_def
      d_param_def)
  have "METHOD_DICT = METHOD_DICT \<or> METHOD_DICT = rev METHOD_DICT"
    by simp
  from same_route_methods_union [OF this run perms] run show ?thesis
    by blast
qed

text \<open>
  C5 at a catalog on which the merge loses a command. The monitor's keys are
  \<open>cmd999\<close> and \<open>cmd1000\<close>; as strings \<open>cmd1000\<close> sorts before \<open>cmd999\<close>, so the
  greatest key is taken to be 999, the first OSD command is stored under
  \<open>cmd1000\<close>, and the monitor's command of that key is overwritten.
\<close>

theorem merge_overwrites_primary_key:
  "merge_sigdicts words_sig
     [(''cmd999'', cmd_of ''show status'' ''r'' [d_prefix ''status'']),
      (''cmd1000'', cmd_of ''show health'' ''r'' [d_prefix ''health''])]
     [(''cmd000'', cmd_of ''show version'' ''r'' [d_prefix ''version''])] =
   Inr [(''cmd999'', with_flavor (cmd_of ''show status'' ''r'' [d_prefix ''status'']) Mon),
        (''cmd1000'', with_flavor (cmd_of ''show version'' ''r'' [d_prefix ''version'']) Tellosd)]"
  by code_simp

section \<open>Properties of the help for unknown endpoints\<close>

lemma set_insert_cmp: "set (insert_cmp f x ys) = insert x (set ys)"
  by (induction ys) auto

lemma set_sorted_cmp: "set (sorted_cmp f xs) = set xs"
  by (induction xs) (simp_all add: sorted_cmp_def set_insert_cmp)

lemma permmap_None: "permmap p = None \<longleftrightarrow> p \<noteq> ''r'' \<and> p \<noteq> ''rw''"
  by (simp add: permmap_def)

lemma help_loop_error:
  "help_loop X pre st cs = Inl e \<Longrightarrow>
   e = KeyError \<and> (\<exists>c \<in> set cs. startswith (help_concise X c) pre \<and> permmap (c_perm c) = None)"
  by (induction cs arbitrary: st) (auto split: if_splits option.splits)

lemma help_loop_KeyError:
  "\<exists>c \<in> set cs. startswith (help_concise X c) pre \<and> permmap (c_perm c) = None \<Longrightarrow>
   help_loop X pre st cs = Inl KeyError"
  by (induction cs arbitrary: st) (auto split: option.splits)

lemma help_loop_no_match:
  "\<forall>c \<in> set cs. \<not> startswith (help_concise X c) pre \<Longrightarrow> help_loop X pre st cs = Inr st"
  by (induction cs arbitrary: st) auto

lemma help_row_nonempty: "help_row X c m \<noteq> []"
  by (simp add: help_row_def)

lemma help_loop_line:
  "help_loop X pre st cs = Inr st' \<Longrightarrow>
   snd st \<noteq> [] \<or> (\<exists>c \<in> set cs. startswith (help_concise X c) pre) \<Longrightarrow> snd st' \<noteq> []"
proof (induction cs arbitrary: st)
  case Nil
  then show ?case by simp
next
  case (Cons c cs)
  show ?case
  proof (cases "startswith (help_concise X c) pre")
    case True
    with Cons.prems(1) obtain m where m: "permmap (c_perm c) = Some m"
      and rest: "help_loop X pre (fst st @ concat (help_row X c m), help_row X c m) cs = Inr st'"
      by (auto split: option.splits)
    show ?thesis
      by (rule Cons.IH [OF rest]) (simp add: help_row_nonempty)
  next
    case False
    with Cons.prems have "help_loop X pre st cs = Inr st'"
      and "snd st \<noteq> [] \<or> (\<exists>c \<in> set cs. startswith (help_concise X c) pre)"
      by auto
    then show ?thesis by (rule Cons.IH)
  qed
qed

text \<open>
  C10. show\_human\_help raises KeyError exactly when a command of the catalog
  whose concise form starts with the prefix has a permission string other
  than \<open>r\<close> and \<open>rw\<close>; when every such command has one of these two, it
  returns a document.
\<close>

theorem help_raises_on_other_perm:
  "((\<exists>c \<in> snd ` set sigdict.
        startswith (help_concise X c) pre \<and> c_perm c \<noteq> ''r'' \<and> c_perm c \<noteq> ''rw'')
      \<longrightarrow> show_human_help X sigdict pre = Inl KeyError) \<and>
   ((\<forall>c \<in> snd ` set sigdict.
        startswith (help_concise X c) pre \<longrightarrow> c_perm c = ''r'' \<or> c_perm c = ''rw'')
      \<longrightarrow> (\<exists>doc. show_human_help X sigdict pre = Inr doc))"
proof (intro conjI impI)
  assume "\<exists>c \<in> snd ` set sigdict.
         startswith (help_concise X c) pre \<and> c_perm c \<noteq> ''r'' \<and> c_perm c \<noteq> ''rw''"
  then have "\<exists>c \<in> set (sorted_cmp (descsort X) (map snd sigdict)).
      startswith (help_concise X c) pre \<and> permmap (c_perm c) = None"
    by (simp add: set_sorted_cmp permmap_None)
  then have "help_loop X pre st (sorted_cmp (descsort X) (map snd sigdict)) = Inl KeyError" for st
    by (rule help_loop_KeyError)
  then show "show_human_help X sigdict pre = Inl KeyError"
    by (simp add: show_human_help_def)
next
  assume ok: "\<forall>c \<in> snd ` set sigdict.
        startswith (help_concise X c) pre \<longrightarrow> c_perm c = ''r'' \<or> c_perm c = ''rw''"
  show "\<exists>doc. show_human_help X sigdict pre = Inr doc"
  proof (cases "help_loop X pre
             (''<html><body><table border=1><th>Possible commands:</th><th>Method</th><th>Description</th>'', [])
             (sorted_cmp (descsort X) (map snd sigdict))")
    case (Inl e)
    from help_loop_error [OF this] obtain c where
      "c \<in> set (map snd sigdict)" "startswith (help_concise X c) pre" "permmap (c_perm c) = None"
      by (auto simp: set_sorted_cmp)
    with ok show ?thesis
      by (auto simp: permmap_None)
  next
    case (Inr st)
    then show ?thesis by (cases st) (simp add: show_human_help_def)
  qed
qed

theorem help_raises_on_other_perm_witness:
  "show_human_help demo_ext help_cat ''osd pool se'' = Inl KeyError \<and>
   (\<exists>doc. show_human_help demo_ext help_cat ''osd pool st'' = Inr doc)"
proof -
  have 1: "\<exists>c \<in> snd ` set help_cat.
        startswith (help_concise demo_ext c) ''osd pool se'' \<and> c_perm c \<noteq> ''r'' \<and> c_perm c \<noteq> ''rw''"
    by (simp add: help_cat_def help_concise_def demo_ext_def words_sig_def literal_str_def
        with_flavor_def cmd_of_def d_prefix_def d_param_def)
  have 2: "\<forall>c \<in> snd ` set help_cat.
        startswith (help_concise demo_ext c) ''osd pool st'' \<longrightarrow> c_perm c = ''r'' \<or> c_perm c = ''rw''"
    by (simp add: help_cat_def help_concise_def demo_ext_def words_sig_def literal_str_def
        with_flavor_def cmd_of_def d_prefix_def d_param_def)
  show ?thesis
    using help_raises_on_other_perm [of help_cat demo_ext "''osd pool se''"]
      help_raises_on_other_perm [of help_cat demo_ext "''osd pool st''"] 1 2
    by blast
qed


section \<open>Properties of the response formatter\<close>

text \<open>
  C8. For a format that contains \<open>json\<close>, make\_response parses the output
  (the text of the empty array when the output is empty) and answers with
  the object of \<open>output\<close> and \<open>status\<close> under the given status code; for
  the empty output this is the object with the empty array, json.loads
  reading \<open>[]\<close> as such; and it answers 500 when the output is not empty and
  json.loads rejects it.
\<close>

theorem json_response_envelope:
  assumes "py_in ''json'' f"
  shows "(\<forall>native. json_loads X (if output \<noteq> [] then output else ''[]'') = Some native \<longrightarrow>
            make_response X (Some f) output statusmsg errorcode =
              flask_response
                (json_dumps X (JObj [(''output'', native), (''status'', JStr statusmsg)])) errorcode)
       \<and> (json_loads X ''[]'' = Some (JArr []) \<longrightarrow>
            make_response X (Some f) [] statusmsg errorcode =
              flask_response
                (json_dumps X (JObj [(''output'', JArr []), (''status'', JStr statusmsg)])) errorcode)
       \<and> (output \<noteq> [] \<and> json_loads X output = None \<longrightarrow>
            make_response X (Some f) output statusmsg errorcode =
              flask_response (''Error decoding JSON from '' @ output) 500)"
proof -
  from assms have "f \<noteq> []" by auto
  with assms show ?thesis by (simp add: make_response_def)
qed

theorem json_response_envelope_witness:
  "make_response demo_ext (Some ''json'') [] ''OK'' 200 =
     \<lparr>status = 200,
      body = ''{'' @ [CHR 0x22] @ ''output'' @ [CHR 0x22] @ '': [], '' @ [CHR 0x22] @ ''status''
             @ [CHR 0x22] @ '': '' @ [CHR 0x22] @ ''OK'' @ [CHR 0x22] @ ''}'',
      content_type = None\<rparr>
   \<and> make_response demo_ext (Some ''json-pretty'') ''pool 3'' ''OK'' 200 =
     \<lparr>status = 500, body = ''Error decoding JSON from pool 3'', content_type = None\<rparr>"
proof -
  have j: "py_in ''json'' ''json''" and jp: "py_in ''json'' ''json-pretty''"
    by simp_all
  have l: "json_loads demo_ext ''[]'' = Some (JArr [])"
    and n: "''pool 3'' \<noteq> [] \<and> json_loads demo_ext ''pool 3'' = None"
    by (simp_all add: demo_ext_def loads_empty_def strip_def is_space_def)
  show ?thesis
    using json_response_envelope [OF j, of demo_ext "[]" "''OK''" 200] l
      json_response_envelope [OF jp, of demo_ext "''pool 3''" "''OK''" 200] n
    by (simp add: flask_response_def demo_ext_def json_quote_def json_escape_def)
qed

section \<open>Properties of the dispatcher\<close>

lemma make_response_status:
  "json_loads X ''[]'' \<noteq> None \<Longrightarrow> status (make_response X fmt [] msg code) = code"
  by (auto simp: make_response_def flask_response_def split: option.splits)

lemma show_human_help_no_match:
  assumes "\<forall>c \<in> snd ` set sigdict. \<not> startswith (help_concise X c) pre"
  shows "show_human_help X sigdict pre = Inr []"
proof -
  have "\<forall>c \<in> set (sorted_cmp (descsort X) (map snd sigdict)). \<not> startswith (help_concise X c) pre"
    using assms by (simp add: set_sorted_cmp)
  then show ?thesis
    by (simp add: show_human_help_def help_loop_no_match)
qed

lemma show_human_help_match:
  assumes m: "\<exists>c \<in> snd ` set sigdict. startswith (help_concise X c) pre"
    and ok: "\<forall>c \<in> snd ` set sigdict.
               startswith (help_concise X c) pre \<longrightarrow> c_perm c = ''r'' \<or> c_perm c = ''rw''"
  shows "\<exists>doc. doc \<noteq> [] \<and> show_human_help X sigdict pre = Inr doc"
proof -
  let ?st = "(''<html><body><table border=1><th>Possible commands:</th><th>Method</th><th>Description</th>'', [])"
  let ?cs = "sorted_cmp (descsort X) (map snd sigdict)"
  show ?thesis
  proof (cases "help_loop X pre ?st ?cs")
    case (Inl e)
    from help_loop_error [OF this] obtain c where
      "c \<in> set (map snd sigdict)" "startswith (help_concise X c) pre" "permmap (c_perm c) = None"
      by (auto simp: set_sorted_cmp)
    with ok show ?thesis
      by (auto simp: permmap_None)
  next
    case (Inr st)
    have "\<exists>c \<in> set ?cs. startswith (help_concise X c) pre"
      using m by (simp add: set_sorted_cmp)
    then have "snd st \<noteq> []"
      using help_loop_line [OF Inr] by blast
    with Inr show ?thesis
      by (cases st) (simp add: show_human_help_def)
  qed
qed

text \<open>
  C1, amended. For a request whose endpoint starts with the base URL and is
  not in \<^verbatim>\<open>glob.urls\<close>: when no command of the catalog has a concise form that
  starts with the prefix, the handler answers with status 400 and the status
  message \<open>Invalid endpoint\<close>; when some have, and their permissions are keys
  of permmap, it answers with status 400 and a non-empty HTML help document.
\<close>

theorem unknown_endpoint_answers_400:
  assumes ep: "endpoint_path catchall_path rq = Inr ep"
    and base: "startswith ep (g_baseurl G)"
    and ts: "resolve_target X rq (drop (length (g_baseurl G) + 1) ep) target = Inr ts"
    and pre: "pre = command_prefix ts (drop (length (g_baseurl G) + 1) ep)"
    and unknown: "g_urls G ep = None"
    and loads: "json_loads X ''[]'' \<noteq> None"
  shows "((\<forall>c \<in> snd ` set (g_sigdict G). \<not> startswith (help_concise X c) pre) \<longrightarrow>
            handler X G rq catchall_path fmt target =
              Inr (make_response X (resolve_fmt fmt (rq_accept rq)) [] (''Invalid endpoint '' @ ep) 400)
            \<and> status (make_response X (resolve_fmt fmt (rq_accept rq)) []
                        (''Invalid endpoint '' @ ep) 400) = 400)
       \<and> ((\<exists>c \<in> snd ` set (g_sigdict G). startswith (help_concise X c) pre) \<and>
           (\<forall>c \<in> snd ` set (g_sigdict G).
               startswith (help_concise X c) pre \<longrightarrow> c_perm c = ''r'' \<or> c_perm c = ''rw'') \<longrightarrow>
            (\<exists>doc. doc \<noteq> [] \<and>
               handler X G rq catchall_path fmt target =
                 Inr \<lparr>status = 400, body = doc, content_type = Some ''text/html''\<rparr>))"
proof -
  have h: "handler X G rq catchall_path fmt target =
             unknown_endpoint X G (resolve_fmt fmt (rq_accept rq)) ep pre"
    using ep base ts pre unknown by (simp add: handler_def Let_def)
  show ?thesis
  proof (intro conjI impI)
    assume "\<forall>c \<in> snd ` set (g_sigdict G). \<not> startswith (help_concise X c) pre"
    then have "show_human_help X (g_sigdict G) pre = Inr []"
      by (rule show_human_help_no_match)
    then show "handler X G rq catchall_path fmt target =
              Inr (make_response X (resolve_fmt fmt (rq_accept rq)) [] (''Invalid endpoint '' @ ep) 400)"
      using h by (simp add: unknown_endpoint_def)
  next
    show "status (make_response X (resolve_fmt fmt (rq_accept rq)) []
                        (''Invalid endpoint '' @ ep) 400) = 400"
      using loads by (rule make_response_status)
  next
    assume "(\<exists>c \<in> snd ` set (g_sigdict G). startswith (help_concise X c) pre) \<and>
           (\<forall>c \<in> snd ` set (g_sigdict G).
               startswith (help_concise X c) pre \<longrightarrow> c_perm c = ''r'' \<or> c_perm c = ''rw'')"
    then obtain doc where "doc \<noteq> []" "show_human_help X (g_sigdict G) pre = Inr doc"
      using show_human_help_match by blast
    then show "\<exists>doc. doc \<noteq> [] \<and>
               handler X G rq catchall_path fmt target =
                 Inr \<lparr>status = 400, body = doc, content_type = Some ''text/html''\<rparr>"
      using h by (simp add: unknown_endpoint_def)
  qed
qed

text \<open>
  C1, as the spec states it, fails: for an endpoint under the base URL that
  is not in the table and that no command of the catalog matches, the answer
  has status 400, not 404.
\<close>

theorem unknown_endpoint_counterexample:
  "serve demo_ext ''/api/v0.1'' METHOD_DICT demo_sigdict
     (get_request ''/<path:catchall_path>'' [] []) (Some ''api/v0.1/nosuch'') None None =
   Inr \<lparr>status = 400, body = [], content_type = None\<rparr>"
  by code_simp

theorem unknown_endpoint_answers_400_witness:
  "handler demo_ext demo_gvars (get_request ''/<path:catchall_path>'' [] [])
     (Some ''api/v0.1/nosuch'') None None =
     Inr \<lparr>status = 400, body = [], content_type = None\<rparr>
   \<and> (\<exists>doc. doc \<noteq> [] \<and>
        handler demo_ext demo_gvars (get_request ''/<path:catchall_path>'' [] [])
          (Some ''api/v0.1/osd/l'') None None =
        Inr \<lparr>status = 400, body = doc, content_type = Some ''text/html''\<rparr>)"
proof -
  let ?rq = "get_request ''/<path:catchall_path>'' [] []"
  have l: "json_loads demo_ext ''[]'' \<noteq> None"
    by (simp add: demo_ext_def loads_empty_def strip_def is_space_def)
  have e1: "endpoint_path (Some ''api/v0.1/nosuch'') ?rq = Inr ''/api/v0.1/nosuch''"
    and e2: "endpoint_path (Some ''api/v0.1/osd/l'') ?rq = Inr ''/api/v0.1/osd/l''"
    by (simp_all add: endpoint_path_def or_else_def py_replace_def)
  have b1: "startswith ''/api/v0.1/nosuch'' (g_baseurl demo_gvars)"
    and b2: "startswith ''/api/v0.1/osd/l'' (g_baseurl demo_gvars)"
    by (simp_all add: demo_gvars_def)
  have t1: "resolve_target demo_ext ?rq (drop (length (g_baseurl demo_gvars) + 1) ''/api/v0.1/nosuch'')
              None = Inr no_target"
    and t2: "resolve_target demo_ext ?rq (drop (length (g_baseurl demo_gvars) + 1) ''/api/v0.1/osd/l'')
              None = Inr no_target"
    by (simp_all add: resolve_target_def truthy_def demo_gvars_def get_request_def no_target_def)
  have p1: "''nosuch'' = command_prefix no_target
              (drop (length (g_baseurl demo_gvars) + 1) ''/api/v0.1/nosuch'')"
    and p2: "''osd l'' = command_prefix no_target
              (drop (length (g_baseurl demo_gvars) + 1) ''/api/v0.1/osd/l'')"
    by (simp_all add: command_prefix_def no_target_def demo_gvars_def strip_def is_space_def)
  have u1: "g_urls demo_gvars ''/api/v0.1/nosuch'' = None"
    and u2: "g_urls demo_gvars ''/api/v0.1/osd/l'' = None"
    by (simp_all add: demo_gvars_def)
  have n1: "\<forall>c \<in> snd ` set (g_sigdict demo_gvars). \<not> startswith (help_concise demo_ext c) ''nosuch''"
    by (simp add: demo_gvars_def demo_sigdict_def help_concise_def demo_ext_def words_sig_def
        literal_str_def with_flavor_def cmd_of_def d_prefix_def d_param_def)
  have m2: "(\<exists>c \<in> snd ` set (g_sigdict demo_gvars). startswith (help_concise demo_ext c) ''osd l'') \<and>
            (\<forall>c \<in> snd ` set (g_sigdict demo_gvars).
               startswith (help_concise demo_ext c) ''osd l'' \<longrightarrow> c_perm c = ''r'' \<or> c_perm c = ''rw'')"
    by (simp add: demo_gvars_def demo_sigdict_def help_concise_def demo_ext_def words_sig_def
        literal_str_def with_flavor_def cmd_of_def d_prefix_def d_param_def)
  have r: "make_response demo_ext (resolve_fmt None (rq_accept ?rq)) []
             (''Invalid endpoint '' @ ''/api/v0.1/nosuch'') 400 =
           \<lparr>status = 400, body = [], content_type = None\<rparr>"
    by (simp add: make_response_def resolve_fmt_def truthy_def get_request_def flask_response_def)
  show ?thesis
    using unknown_endpoint_answers_400 [OF e1 b1 t1 p1 u1 l, of None]
      unknown_endpoint_answers_400 [OF e2 b2 t2 p2 u2 l, of None] n1 m2 r
    by simp
qed

text \<open>
  C2 at a request on which the handler goes on after the target failed to
  parse. The route \<open>tell/<target>/version\<close> is in the table and the target
  \<open>foo\<close> is not an OSD name; the handler sends the command with the string
  \<open>foo\<close> as its target and answers 200 with the cluster's output.
\<close>

theorem bad_target_is_executed:
  "osdname_valid demo_ext ''foo'' = Inl ''osd id foo not integer'' \<and>
   serve demo_ext ''/api/v0.1'' METHOD_DICT demo_sigdict
     (get_request ''/api/v0.1/tell/<target>/version'' [] []) None None (Some ''foo'') =
   Inr \<lparr>status = 200, body = ''sent to foo'', content_type = Some ''text/plain''\<rparr>"
  by code_simp

text \<open>
  C7, as the spec states it, fails: a request without query parameters is
  matched by the entry of \<open>osd ls\<close>, whose parameter signature holds the
  optional parameter \<open>epoch\<close>.
\<close>

theorem no_args_match_counterexample:
  "match_loop demo_ext (get_request ''/api/v0.1/osd/ls'' [] []) ''osd ls'' [] [ls_entry] =
     Found ls_entry Map.empty \<and>
   u_paramsig ls_entry \<noteq> [] \<and>
   rq_args (get_request ''/api/v0.1/osd/ls'' [] []) = [] \<and>
   (case build_urls literal_str ''/api/v0.1'' METHOD_DICT demo_sigdict of
      Inl e \<Rightarrow> None | Inr st \<Rightarrow> urls st ''/api/v0.1/osd/ls'') = Some [ls_entry]"
proof -
  have "match_loop demo_ext (get_request ''/api/v0.1/osd/ls'' [] []) ''osd ls'' [] [ls_entry] =
     Found ls_entry Map.empty \<and> u_paramsig ls_entry \<noteq> [] \<and>
     rq_args (get_request ''/api/v0.1/osd/ls'' [] []) = []"
    by (simp add: ls_entry_def get_request_def demo_ext_def spec_validate_def collect_args_def
        d_param_def)
  moreover have "(case build_urls literal_str ''/api/v0.1'' METHOD_DICT demo_sigdict of
      Inl e \<Rightarrow> None | Inr st \<Rightarrow> urls st ''/api/v0.1/osd/ls'') = Some [ls_entry]"
    by code_simp
  ultimately show ?thesis by simp
qed

lemma match_loop_Cons_Found:
  assumes "match_loop X rq pre exc (u # us) = Found ud argdict"
  shows "(\<exists>exc'. match_loop X rq pre exc' us = Found ud argdict) \<or>
         (ud = u \<and>
          (if u_paramsig u = [] then rq_args rq = [] \<and> argdict = Map.empty
           else validate X (collect_args (rq_args rq)) (u_paramsig u) = Inr argdict))"
  using assms by (auto split: if_splits sum.splits)

text \<open>
  C7, amended. When the loop over the entries of a URL ends with an entry
  found: if the entry's parameter signature is empty, the request has no query
  parameter; if it is not empty, validate has accepted the request's
  parameters for it. So a request without query parameters matches an entry
  with an empty signature or one for which validate accepts the empty
  dictionary.
\<close>

theorem match_by_validate:
  assumes "match_loop X rq pre exc uds = Found ud argdict"
  shows "ud \<in> set uds \<and>
         (u_paramsig ud = [] \<longrightarrow> rq_args rq = [] \<and> argdict = Map.empty) \<and>
         (u_paramsig ud \<noteq> [] \<longrightarrow>
            validate X (collect_args (rq_args rq)) (u_paramsig ud) = Inr argdict) \<and>
         (rq_args rq = [] \<longrightarrow>
            u_paramsig ud = [] \<or> validate X [] (u_paramsig ud) = Inr argdict)"
  using assms
proof (induction uds arbitrary: exc)
  case Nil
  then show ?case by simp
next
  case (Cons u us)
  from match_loop_Cons_Found [OF Cons.prems] show ?case
  proof
    assume "\<exists>exc'. match_loop X rq pre exc' us = Found ud argdict"
    then obtain exc' where "match_loop X rq pre exc' us = Found ud argdict" ..
    from Cons.IH [OF this] show ?thesis by simp
  next
    assume "ud = u \<and>
          (if u_paramsig u = [] then rq_args rq = [] \<and> argdict = Map.empty
           else validate X (collect_args (rq_args rq)) (u_paramsig u) = Inr argdict)"
    then show ?thesis
      by (cases "u_paramsig u = []") (auto simp: collect_args_def)
  qed
qed

theorem match_by_validate_witness:
  "ls_entry \<in> set [ls_entry] \<and>
   validate demo_ext (collect_args (rq_args (get_request ''/api/v0.1/osd/ls'' [] [])))
     (u_paramsig ls_entry) = Inr Map.empty"
proof -
  have "match_loop demo_ext (get_request ''/api/v0.1/osd/ls'' [] []) ''osd ls'' [] [ls_entry] =
          Found ls_entry Map.empty"
    by (simp add: ls_entry_def get_request_def demo_ext_def spec_validate_def collect_args_def
        d_param_def)
  from match_by_validate [OF this] show ?thesis
    by (simp add: ls_entry_def)
qed

section \<open>Properties of the format resolution\<close>














end
